theory Spec2Isabelle
  imports Main
begin

section \<open>The nested-transaction wrapper of sqlx-runner/tx.go\<close>

subsection \<open>Data\<close>

text \<open>
  The four values of the \<^verbatim>\<open>iota\<close> block: \<^verbatim>\<open>txPending = 0\<close>, \<^verbatim>\<open>txCommitted = 1\<close>,
  \<^verbatim>\<open>txRollbacked = 2\<close>, \<^verbatim>\<open>txErred = 3\<close>. The field \<^verbatim>\<open>state\<close> is only ever assigned one
  of them, and its zero value is \<^verbatim>\<open>txPending\<close>.
\<close>

datatype tx_state = txPending | txCommitted | txRollbacked | txErred

text \<open>
  Errors a method can return: the package variable \<^verbatim>\<open>ErrTxRollbacked\<close>, a value made by
  \<^verbatim>\<open>errors.New\<close>, a value made by \<^verbatim>\<open>fmt.Errorf\<close> (its formatted text), and the error the
  underlying handle returned, passed on as it is (identified by its message).
\<close>

datatype error =
    ErrTxRollbacked
  | ErrorsNew string
  | FmtErrorf string
  | Underlying string

text \<open>
  The embedded \<^verbatim>\<open>*sqlx.Tx\<close> is an external handle. What the wrapper does to it is recorded as
  the list of the calls it received, oldest first, each with the result the driver gave
  (\<open>None\<close> for \<^verbatim>\<open>nil\<close>, \<open>Some msg\<close> for an error). The driver itself is a parameter: any
  function from the calls so far and the new call to a result.
\<close>

datatype drv_call = DrvCommit | DrvRollback

type_synonym drv_log = "(drv_call \<times> string option) list"

type_synonym driver = "drv_log \<Rightarrow> drv_call \<Rightarrow> string option"

record Tx =
  sqlxTx :: drv_log
  IsRollbacked :: bool
  state :: tx_state
  stateStack :: "tx_state list"

text \<open>
  A method either returns (with its result and the entity as it left it) or ends the
  process: \<^verbatim>\<open>logger.Fatal\<close> and an unrecovered \<^verbatim>\<open>panic\<close> in a timer goroutine do not return.
\<close>

datatype 'r outcome = Return 'r Tx | Fatal string Tx

fun outcome_tx :: "'r outcome \<Rightarrow> Tx" where
  "outcome_tx (Return r tx) = tx"
| "outcome_tx (Fatal msg tx) = tx"

text \<open>
  \<^verbatim>\<open>Begin\<close> returns a \<^verbatim>\<open>*Tx\<close>: either \<^verbatim>\<open>nil\<close> or its own receiver.
\<close>

datatype tx_ref = NilRef | Receiver

subsection \<open>Calls on the underlying handle\<close>

definition sqlx_Commit :: "driver \<Rightarrow> Tx \<Rightarrow> string option \<times> Tx" where
  "sqlx_Commit drv tx =
     (let err = drv (sqlxTx tx) DrvCommit
      in (err, tx\<lparr>sqlxTx := sqlxTx tx @ [(DrvCommit, err)]\<rparr>))"

definition sqlx_Rollback :: "driver \<Rightarrow> Tx \<Rightarrow> string option \<times> Tx" where
  "sqlx_Rollback drv tx =
     (let err = drv (sqlxTx tx) DrvRollback
      in (err, tx\<lparr>sqlxTx := sqlxTx tx @ [(DrvRollback, err)]\<rparr>))"

subsection \<open>The state stack\<close>

definition pushState :: "Tx \<Rightarrow> Tx" where
  "pushState tx = tx\<lparr>stateStack := stateStack tx @ [state tx], state := txPending\<rparr>"

definition popState :: "Tx \<Rightarrow> Tx" where
  "popState tx =
     (if length (stateStack tx) = 0 then tx
      else tx\<lparr>state := last (stateStack tx), stateStack := butlast (stateStack tx)\<rparr>)"

subsection \<open>Creation and the leak check\<close>

text \<open>
  \<^verbatim>\<open>time.AfterFunc(d, f)\<close> registers \<open>f\<close> to run once, \<open>d\<close> nanoseconds later. The callback
  of \<^verbatim>\<open>WrapSqlxTx\<close> reads the entity as it is when the timer fires and panics or does
  nothing: \<open>Some msg\<close> is the panic.
\<close>

datatype timer = AfterFunc nat "Tx \<Rightarrow> string option"

definition time_Minute :: nat where
  "time_Minute = 60 * 1000000000"

definition leak_check :: "Tx \<Rightarrow> string option" where
  "leak_check newtx =
     (if \<not> IsRollbacked newtx \<and> state newtx = txPending
      then Some ''A database transaction was not closed!''
      else None)"

text \<open>
  \<open>strict\<close> is the global \<^verbatim>\<open>dat.Strict\<close>; \<open>h\<close> is what the handle given to \<^verbatim>\<open>WrapSqlxTx\<close> has
  received so far. The result is the new entity and the timers armed.
\<close>

definition WrapSqlxTx :: "bool \<Rightarrow> drv_log \<Rightarrow> Tx \<times> timer list" where
  "WrapSqlxTx strict h =
     (let newtx = \<lparr>sqlxTx = h, IsRollbacked = False, state = txPending, stateStack = []\<rparr>
      in (newtx, if strict then [AfterFunc (1 * time_Minute) leak_check] else []))"

subsection \<open>The five methods\<close>

definition Begin :: "Tx \<Rightarrow> (tx_ref \<times> error option) \<times> Tx" where
  "Begin tx =
     (if IsRollbacked tx then ((NilRef, Some ErrTxRollbacked), tx)
      else ((Receiver, None), pushState tx))"

definition Commit :: "driver \<Rightarrow> Tx \<Rightarrow> error option \<times> Tx" where
  "Commit drv tx =
     (if IsRollbacked tx then (Some ErrTxRollbacked, tx)
      else if state tx = txCommitted
        then (Some (ErrorsNew ''transaction has already been commited''), tx)
      else if state tx = txRollbacked
        then (Some (ErrorsNew ''transaction has already been rolled back''), tx)
      else if length (stateStack tx) = 0 then
        (case sqlx_Commit drv tx of
           (Some err, tx1) \<Rightarrow> (Some (Underlying err), tx1\<lparr>state := txErred\<rparr>)
         | (None, tx1) \<Rightarrow> (None, tx1\<lparr>state := txCommitted\<rparr>))
      else (None, tx\<lparr>state := txCommitted\<rparr>))"

definition Rollback :: "driver \<Rightarrow> Tx \<Rightarrow> error option \<times> Tx" where
  "Rollback drv tx =
     (if IsRollbacked tx then (Some ErrTxRollbacked, tx)
      else if state tx = txCommitted
        then (Some (ErrorsNew ''cannot rollback, transaction has already been commited''), tx)
      else
        (case sqlx_Rollback drv tx of
           (Some err, tx1) \<Rightarrow>
             (Some (FmtErrorf (''Unable to rollback: '' @ err)), tx1\<lparr>state := txErred\<rparr>)
         | (None, tx1) \<Rightarrow> (None, tx1\<lparr>state := txRollbacked, IsRollbacked := True\<rparr>)))"

definition AutoCommit :: "bool \<Rightarrow> driver \<Rightarrow> Tx \<Rightarrow> error option outcome" where
  "AutoCommit strict drv tx =
     (if state tx = txRollbacked \<or> IsRollbacked tx then Return None (popState tx)
      else
        (case sqlx_Commit drv tx of
           (Some err, tx1) \<Rightarrow>
             (let tx2 = tx1\<lparr>state := txErred\<rparr>
              in if strict then Fatal ''Could not commit transaction'' tx2
                 else Return (Some (Underlying err)) (popState tx2))
         | (None, tx1) \<Rightarrow> Return None (popState (tx1\<lparr>state := txCommitted\<rparr>))))"

definition AutoRollback :: "bool \<Rightarrow> driver \<Rightarrow> Tx \<Rightarrow> error option outcome" where
  "AutoRollback strict drv tx =
     (if IsRollbacked tx \<or> state tx = txCommitted then Return None (popState tx)
      else
        (case sqlx_Rollback drv tx of
           (Some err, tx1) \<Rightarrow>
             (let tx2 = tx1\<lparr>state := txErred\<rparr>
              in if strict then Fatal ''Could not rollback transaction'' tx2
                 else Return
                        (Some (FmtErrorf (''transaction.AutoRollback.rollback_error: '' @ err)))
                        (popState tx2))
         | (None, tx1) \<Rightarrow>
             Return None (popState (tx1\<lparr>state := txRollbacked, IsRollbacked := True\<rparr>))))"

subsection \<open>Sequences of calls on one entity\<close>

text \<open>
  Every method holds the entity's mutex for its whole body, so the calls on one entity
  happen one after the other. A run ends early when a call ends the process.
\<close>

datatype call = CallBegin | CallCommit | CallRollback | CallAutoCommit | CallAutoRollback

fun exec :: "bool \<Rightarrow> driver \<Rightarrow> call \<Rightarrow> Tx \<Rightarrow> error option outcome" where
  "exec strict drv CallBegin tx = (case Begin tx of ((r, err), tx') \<Rightarrow> Return err tx')"
| "exec strict drv CallCommit tx = (case Commit drv tx of (err, tx') \<Rightarrow> Return err tx')"
| "exec strict drv CallRollback tx = (case Rollback drv tx of (err, tx') \<Rightarrow> Return err tx')"
| "exec strict drv CallAutoCommit tx = AutoCommit strict drv tx"
| "exec strict drv CallAutoRollback tx = AutoRollback strict drv tx"

datatype process = Running Tx | Exited Tx

fun process_tx :: "process \<Rightarrow> Tx" where
  "process_tx (Running tx) = tx"
| "process_tx (Exited tx) = tx"

fun run :: "bool \<Rightarrow> driver \<Rightarrow> call list \<Rightarrow> Tx \<Rightarrow> process" where
  "run strict drv [] tx = Running tx"
| "run strict drv (c # cs) tx =
     (case exec strict drv c tx of
        Return err tx' \<Rightarrow> run strict drv cs tx'
      | Fatal msg tx' \<Rightarrow> Exited tx')"

text \<open>A root transaction as \<^verbatim>\<open>DB.Begin\<close> makes it: a new handle, wrapped.\<close>

definition root :: "bool \<Rightarrow> Tx" where
  "root strict = fst (WrapSqlxTx strict [])"

text \<open>Two concrete drivers: one that accepts every call, one that refuses every call.\<close>

definition always_ok :: driver where
  "always_ok h c = None"

definition always_fails :: driver where
  "always_fails h c = Some ''driver: bad connection''"

subsection \<open>Two invariants of the entity\<close>

text \<open>
  The state \<^verbatim>\<open>txRollbacked\<close> never appears without the sticky flag, and is never saved on
  the stack.
\<close>

definition rolled_back_ok :: "Tx \<Rightarrow> bool" where
  "rolled_back_ok tx \<longleftrightarrow>
     (state tx = txRollbacked \<longrightarrow> IsRollbacked tx) \<and> txRollbacked \<notin> set (stateStack tx)"

text \<open>
  A rollback the driver accepted is the last call the handle received, and the sticky flag
  is set exactly when there is one.
\<close>

definition rollback_last :: "Tx \<Rightarrow> bool" where
  "rollback_last tx \<longleftrightarrow>
     (DrvRollback, None) \<notin> set (butlast (sqlxTx tx))
     \<and> (IsRollbacked tx \<longleftrightarrow> sqlxTx tx \<noteq> [] \<and> last (sqlxTx tx) = (DrvRollback, None))"

section \<open>Basic facts\<close>

lemmas tx_defs = Begin_def Commit_def Rollback_def AutoCommit_def AutoRollback_def
  sqlx_Commit_def sqlx_Rollback_def pushState_def popState_def

lemma root_simp [simp]:
  "root strict = \<lparr>sqlxTx = [], IsRollbacked = False, state = txPending, stateStack = []\<rparr>"
  by (simp add: root_def WrapSqlxTx_def)

lemma popState_fields [simp]:
  "sqlxTx (popState tx) = sqlxTx tx" "IsRollbacked (popState tx) = IsRollbacked tx"
  "stateStack (popState tx) = butlast (stateStack tx)"
  by (simp_all add: popState_def)

lemma in_set_last: "x \<in> set xs \<Longrightarrow> x \<notin> set (butlast xs) \<Longrightarrow> last xs = x"
  by (cases xs rule: rev_cases) auto

lemma at_most_one_last:
  assumes "x \<notin> set (butlast xs)"
  shows "length (filter (\<lambda>e. e = x) xs) \<le> 1"
proof (cases xs rule: rev_cases)
  case Nil
  then show ?thesis by simp
next
  case (snoc ys y)
  with assms have "filter (\<lambda>e. e = x) ys = []" by (auto simp: filter_empty_conv)
  with snoc show ?thesis by simp
qed

subsection \<open>Runs\<close>

lemma run_append:
  "run strict drv (xs @ ys) tx =
     (case run strict drv xs tx of
        Running tx' \<Rightarrow> run strict drv ys tx'
      | Exited tx' \<Rightarrow> Exited tx')"
  by (induction xs arbitrary: tx) (auto split: outcome.splits)

text \<open>A property every call preserves holds at the end of every run.\<close>

lemma run_invariant:
  assumes step: "\<And>c tx. P tx \<Longrightarrow> P (outcome_tx (exec strict drv c tx))"
    and init: "P tx"
  shows "P (process_tx (run strict drv cs tx))"
  using init
proof (induction cs arbitrary: tx)
  case Nil
  then show ?case by simp
next
  case (Cons c cs)
  from step [OF Cons.prems, of c] show ?case
    by (cases "exec strict drv c tx") (auto intro: Cons.IH)
qed

text \<open>In lenient mode no call ends the process.\<close>

lemma exec_lenient_returns: "\<exists>err tx'. exec False drv c tx = Return err tx'"
  by (cases c)
    (auto simp: Begin_def Commit_def Rollback_def AutoCommit_def AutoRollback_def
      sqlx_Commit_def sqlx_Rollback_def Let_def split: option.splits)

lemma run_lenient_returns: "\<exists>tx'. run False drv cs tx = Running tx'"
proof (induction cs arbitrary: tx)
  case Nil
  then show ?case by simp
next
  case (Cons c cs)
  from exec_lenient_returns [of drv c tx] obtain err t1
    where "exec False drv c tx = Return err t1" by blast
  with Cons.IH [of t1] show ?case by simp
qed

subsection \<open>The sticky flag\<close>

text \<open>
  With the flag set, every method returns at its first check (or only pops): the flag
  stays and the handle is not called.
\<close>

lemma exec_sticky:
  assumes "IsRollbacked tx"
  shows "\<exists>err tx'. exec strict drv c tx = Return err tx' \<and> IsRollbacked tx'
           \<and> sqlxTx tx' = sqlxTx tx"
  using assms
  by (cases c)
    (simp_all add: Begin_def Commit_def Rollback_def AutoCommit_def AutoRollback_def)

lemma run_sticky:
  assumes "IsRollbacked tx"
  shows "\<exists>tx'. run strict drv cs tx = Running tx' \<and> IsRollbacked tx' \<and> sqlxTx tx' = sqlxTx tx"
  using assms
proof (induction cs arbitrary: tx)
  case Nil
  then show ?case by simp
next
  case (Cons c cs)
  from exec_sticky [OF Cons.prems, of strict drv c]
  obtain err tx1 where e: "exec strict drv c tx = Return err tx1" "IsRollbacked tx1"
    "sqlxTx tx1 = sqlxTx tx" by blast
  from Cons.IH [OF e(2)] e(1,3) show ?case by auto
qed

subsection \<open>The invariants are preserved\<close>

lemma rolled_back_ok_popState: "rolled_back_ok tx \<Longrightarrow> rolled_back_ok (popState tx)"
  unfolding rolled_back_ok_def popState_def
  by (auto dest: in_set_butlastD) (metis last_in_set)

lemma rollback_last_popState [simp]: "rollback_last (popState tx) = rollback_last tx"
  by (simp add: rollback_last_def)

lemma exec_rolled_back_ok:
  assumes "rolled_back_ok tx"
  shows "rolled_back_ok (outcome_tx (exec strict drv c tx))"
proof (cases c)
  case CallBegin
  with assms show ?thesis by (auto simp: rolled_back_ok_def Begin_def pushState_def)
next
  case CallCommit
  with assms show ?thesis
    by (auto simp: rolled_back_ok_def Commit_def sqlx_Commit_def Let_def split: option.splits)
next
  case CallRollback
  with assms show ?thesis
    by (auto simp: rolled_back_ok_def Rollback_def sqlx_Rollback_def Let_def split: option.splits)
next
  case CallAutoCommit
  have "rolled_back_ok (tx\<lparr>sqlxTx := l, state := txCommitted\<rparr>)"
    "rolled_back_ok (tx\<lparr>sqlxTx := l, state := txErred\<rparr>)" for l
    using assms by (simp_all add: rolled_back_ok_def)
  with assms CallAutoCommit show ?thesis
    by (auto simp: AutoCommit_def sqlx_Commit_def Let_def split: option.splits
        intro!: rolled_back_ok_popState)
next
  case CallAutoRollback
  have "rolled_back_ok (tx\<lparr>sqlxTx := l, state := txRollbacked, IsRollbacked := True\<rparr>)"
    "rolled_back_ok (tx\<lparr>sqlxTx := l, state := txErred\<rparr>)" for l
    using assms by (simp_all add: rolled_back_ok_def)
  with assms CallAutoRollback show ?thesis
    by (auto simp: AutoRollback_def sqlx_Rollback_def Let_def split: option.splits
        intro!: rolled_back_ok_popState)
qed

lemma exec_rollback_last:
  assumes "rollback_last tx"
  shows "rollback_last (outcome_tx (exec strict drv c tx))"
proof (cases c)
  case CallBegin
  with assms show ?thesis by (auto simp: rollback_last_def Begin_def pushState_def)
next
  case CallCommit
  with assms show ?thesis
    by (auto simp: rollback_last_def Commit_def sqlx_Commit_def Let_def split: option.splits
        dest: in_set_last)
next
  case CallRollback
  with assms show ?thesis
    by (auto simp: rollback_last_def Rollback_def sqlx_Rollback_def Let_def split: option.splits
        dest: in_set_last)
next
  case CallAutoCommit
  with assms show ?thesis
    by (auto simp: rollback_last_def AutoCommit_def sqlx_Commit_def Let_def
        split: option.splits dest: in_set_last)
next
  case CallAutoRollback
  with assms show ?thesis
    by (auto simp: rollback_last_def AutoRollback_def sqlx_Rollback_def Let_def
        split: option.splits dest: in_set_last)
qed

subsection \<open>Nesting depth\<close>

lemma run_Begins:
  assumes "\<not> IsRollbacked tx"
  shows "\<exists>tk. run strict drv (replicate k CallBegin) tx = Running tk
           \<and> length (stateStack tk) = length (stateStack tx) + k
           \<and> \<not> IsRollbacked tk \<and> sqlxTx tk = sqlxTx tx"
  using assms
proof (induction k arbitrary: tx)
  case 0
  then show ?case by simp
next
  case (Suc k)
  have "\<not> IsRollbacked (pushState tx)" using Suc.prems by (simp add: pushState_def)
  from Suc.IH [OF this] Suc.prems show ?case
    by (auto simp: Begin_def pushState_def)
qed

lemma exec_auto_pops:
  assumes "c = CallAutoCommit \<or> c = CallAutoRollback"
    and "exec strict drv c tx = Return err tx'"
  shows "stateStack tx' = butlast (stateStack tx)"
  using assms
  by (auto simp: AutoCommit_def AutoRollback_def sqlx_Commit_def sqlx_Rollback_def Let_def
      split: option.splits if_splits)

lemma run_autos_pop:
  assumes "set cs \<subseteq> {CallAutoCommit, CallAutoRollback}"
    and "run strict drv cs tx = Running tx'"
  shows "length (stateStack tx') = length (stateStack tx) - length cs"
  using assms
proof (induction cs arbitrary: tx)
  case Nil
  then show ?case by simp
next
  case (Cons c cs)
  from Cons.prems(2) obtain err t1 where e: "exec strict drv c tx = Return err t1"
    and r: "run strict drv cs t1 = Running tx'"
    by (auto split: outcome.splits)
  from Cons.prems(1) have c: "c = CallAutoCommit \<or> c = CallAutoRollback" by auto
  from exec_auto_pops [OF c e] have "length (stateStack t1) = length (stateStack tx) - 1"
    by simp
  moreover from Cons.IH [OF _ r] Cons.prems(1)
  have "length (stateStack tx') = length (stateStack t1) - length cs" by simp
  ultimately show ?case by simp
qed

section \<open>The claims\<close>

subsection \<open>C1: calls that reach the underlying handle\<close>

text \<open>
  Claim C1, as amended. The wrapper does not keep the number of calls on the underlying
  handle at one. What holds for every entity: \<^verbatim>\<open>Begin\<close> never calls the handle; an explicit
  \<^verbatim>\<open>Commit\<close> from a nested scope (non-empty stack) never calls it; once the sticky flag is
  set no method calls it; and in every run from a new root a rollback the driver accepted
  is the last call the handle received, so at most one rollback succeeds per entity.
  \<^verbatim>\<open>Rollback\<close> and the two auto methods call the handle at any depth, and a call the driver
  refused can be made again.
\<close>

theorem underlying_calls_bounded_by_rollback:
  "sqlxTx (snd (Begin tx)) = sqlxTx tx
   \<and> (stateStack tx \<noteq> [] \<longrightarrow> sqlxTx (snd (Commit drv tx)) = sqlxTx tx)
   \<and> (IsRollbacked tx \<longrightarrow> sqlxTx (outcome_tx (exec strict drv c tx)) = sqlxTx tx)
   \<and> (DrvRollback, None) \<notin> set (butlast (sqlxTx (process_tx (run strict drv cs (root strict)))))
   \<and> length (filter (\<lambda>e. e = (DrvRollback, None))
        (sqlxTx (process_tx (run strict drv cs (root strict))))) \<le> 1"
proof -
  have "rollback_last (root strict)" by (simp add: rollback_last_def)
  then have "rollback_last (process_tx (run strict drv cs (root strict)))"
    by (intro run_invariant [where P = rollback_last] exec_rollback_last)
  then have last: "(DrvRollback, None)
      \<notin> set (butlast (sqlxTx (process_tx (run strict drv cs (root strict)))))"
    by (simp add: rollback_last_def)
  have b: "sqlxTx (snd (Begin tx)) = sqlxTx tx" by (simp add: Begin_def pushState_def)
  have c: "stateStack tx \<noteq> [] \<longrightarrow> sqlxTx (snd (Commit drv tx)) = sqlxTx tx"
    by (simp add: Commit_def)
  have s: "IsRollbacked tx \<longrightarrow> sqlxTx (outcome_tx (exec strict drv c tx)) = sqlxTx tx"
    using exec_sticky [of tx strict drv c] by auto
  from b c s last at_most_one_last [OF last] show ?thesis by blast
qed

text \<open>
  The theorem at a nested scope, at a rolled-back entity, and on a run with three
  rollback attempts of which the driver sees only the first.
\<close>

theorem underlying_calls_bounded_by_rollback_witness:
  "sqlxTx (snd (Commit always_ok
      \<lparr>sqlxTx = [], IsRollbacked = False, state = txPending, stateStack = [txPending]\<rparr>)) = []
   \<and> sqlxTx (outcome_tx (exec False always_ok CallAutoCommit
      \<lparr>sqlxTx = [(DrvRollback, None)], IsRollbacked = True, state = txRollbacked,
       stateStack = []\<rparr>)) = [(DrvRollback, None)]
   \<and> sqlxTx (process_tx (run False always_ok [CallRollback, CallRollback, CallAutoRollback]
        (root False))) = [(DrvRollback, None)]"
  using underlying_calls_bounded_by_rollback [of "\<lparr>sqlxTx = [], IsRollbacked = False,
      state = txPending, stateStack = [txPending]\<rparr>" always_ok False CallAutoCommit
      "[CallRollback, CallRollback, CallAutoRollback]"]
    underlying_calls_bounded_by_rollback [of "\<lparr>sqlxTx = [(DrvRollback, None)],
      IsRollbacked = True, state = txRollbacked, stateStack = []\<rparr>" always_ok False
      CallAutoCommit "[]"]
  by (simp add: tx_defs always_ok_def)

text \<open>
  The claim as stated fails: a root commit, a nested \<^verbatim>\<open>Begin\<close> and a \<^verbatim>\<open>Rollback\<close>, with a
  driver that accepts every call, put two calls on the handle.
\<close>

theorem two_underlying_calls:
  "\<not> length (sqlxTx (process_tx
        (run False always_ok [CallCommit, CallBegin, CallRollback] (root False)))) \<le> 1"
  by (simp add: tx_defs always_ok_def)

subsection \<open>C2: a nested scope closed by AutoCommit, then a root Commit\<close>

text \<open>
  Claim C2, as amended. On a new root, \<^verbatim>\<open>Begin\<close> succeeds and returns the receiver with the
  state \<^verbatim>\<open>txPending\<close> saved on the stack. \<^verbatim>\<open>AutoCommit\<close> on the nested scope then calls the
  underlying commit (neither commit nor rollback was called before); when the driver
  accepts it, \<^verbatim>\<open>AutoCommit\<close> returns no error and pops the stack, which restores
  \<^verbatim>\<open>txPending\<close> with an empty stack. The following root \<^verbatim>\<open>Commit\<close> makes a second underlying
  commit and returns what the driver answers: no error and state \<^verbatim>\<open>txCommitted\<close> when the
  driver accepts it, the driver's error and state \<^verbatim>\<open>txErred\<close> otherwise.
\<close>

theorem nested_AutoCommit_then_Commit:
  "Begin (root strict) =
     ((Receiver, None),
      \<lparr>sqlxTx = [], IsRollbacked = False, state = txPending, stateStack = [txPending]\<rparr>)
   \<and> (drv [] DrvCommit = None \<longrightarrow>
        AutoCommit strict drv (snd (Begin (root strict))) =
          Return None
            \<lparr>sqlxTx = [(DrvCommit, None)], IsRollbacked = False, state = txPending,
             stateStack = []\<rparr>
        \<and> Commit drv
            \<lparr>sqlxTx = [(DrvCommit, None)], IsRollbacked = False, state = txPending,
             stateStack = []\<rparr> =
          (map_option Underlying (drv [(DrvCommit, None)] DrvCommit),
           \<lparr>sqlxTx = [(DrvCommit, None), (DrvCommit, drv [(DrvCommit, None)] DrvCommit)],
            IsRollbacked = False,
            state = (if drv [(DrvCommit, None)] DrvCommit = None then txCommitted else txErred),
            stateStack = []\<rparr>))"
proof -
  let ?n1 = "\<lparr>sqlxTx = [], IsRollbacked = False, state = txPending, stateStack = [txPending]\<rparr>"
  let ?t2 = "\<lparr>sqlxTx = [(DrvCommit, None)], IsRollbacked = False, state = txPending,
              stateStack = []\<rparr>"
  have nested: "Begin (root strict) = ((Receiver, None), ?n1)"
    by (simp add: Begin_def pushState_def)
  have auto: "AutoCommit strict drv ?n1 = Return None ?t2" if "drv [] DrvCommit = None"
    using that by (simp add: AutoCommit_def sqlx_Commit_def popState_def Let_def)
  have outer: "Commit drv ?t2 =
      (map_option Underlying (drv [(DrvCommit, None)] DrvCommit),
       \<lparr>sqlxTx = [(DrvCommit, None), (DrvCommit, drv [(DrvCommit, None)] DrvCommit)],
        IsRollbacked = False,
        state = (if drv [(DrvCommit, None)] DrvCommit = None then txCommitted else txErred),
        stateStack = []\<rparr>)"
    by (cases "drv [(DrvCommit, None)] DrvCommit") (simp_all add: Commit_def sqlx_Commit_def Let_def)
  from nested auto outer show ?thesis by simp
qed

theorem nested_AutoCommit_then_Commit_witness:
  "AutoCommit False always_ok (snd (Begin (root False))) =
     Return None
       \<lparr>sqlxTx = [(DrvCommit, None)], IsRollbacked = False, state = txPending, stateStack = []\<rparr>
   \<and> Commit always_ok
       \<lparr>sqlxTx = [(DrvCommit, None)], IsRollbacked = False, state = txPending, stateStack = []\<rparr> =
     (None,
      \<lparr>sqlxTx = [(DrvCommit, None), (DrvCommit, None)], IsRollbacked = False,
       state = txCommitted, stateStack = []\<rparr>)"
  using nested_AutoCommit_then_Commit [of False always_ok]
  by (simp add: always_ok_def Begin_def pushState_def)

text \<open>
  The claim as stated fails: the nested \<^verbatim>\<open>AutoCommit\<close> does call the underlying handle.
\<close>

theorem nested_AutoCommit_calls_handle:
  "sqlxTx (outcome_tx (AutoCommit False always_ok (snd (Begin (root False)))))
     \<noteq> sqlxTx (snd (Begin (root False)))"
  by (simp add: tx_defs always_ok_def)

subsection \<open>C3: AutoCommit on a committed entity\<close>

text \<open>
  Claim C3 at a committed root. After a root \<^verbatim>\<open>Commit\<close> the driver accepted, the state is
  \<^verbatim>\<open>txCommitted\<close> and the flag is unset. \<^verbatim>\<open>AutoCommit\<close> tests \<^verbatim>\<open>txRollbacked\<close> and the flag
  only, so it calls the underlying commit a second time; \<^verbatim>\<open>AutoRollback\<close>, which tests
  \<^verbatim>\<open>txCommitted\<close>, leaves the handle alone on the same entity.
\<close>

theorem AutoCommit_after_Commit_commits_again:
  "run False always_ok [CallCommit] (root False) =
     Running \<lparr>sqlxTx = [(DrvCommit, None)], IsRollbacked = False, state = txCommitted,
              stateStack = []\<rparr>
   \<and> AutoCommit False always_ok
       \<lparr>sqlxTx = [(DrvCommit, None)], IsRollbacked = False, state = txCommitted,
        stateStack = []\<rparr> =
     Return None
       \<lparr>sqlxTx = [(DrvCommit, None), (DrvCommit, None)], IsRollbacked = False,
        state = txCommitted, stateStack = []\<rparr>
   \<and> AutoRollback False always_ok
       \<lparr>sqlxTx = [(DrvCommit, None)], IsRollbacked = False, state = txCommitted,
        stateStack = []\<rparr> =
     Return None
       \<lparr>sqlxTx = [(DrvCommit, None)], IsRollbacked = False, state = txCommitted,
        stateStack = []\<rparr>"
  by (simp add: tx_defs always_ok_def)

subsection \<open>C4: the sticky flag\<close>

text \<open>
  Claim C4, as amended. Once \<^verbatim>\<open>Rollback\<close> returns no error, or \<^verbatim>\<open>AutoRollback\<close> returns no
  error after calling the underlying rollback, the sticky flag is set; after any further
  calls the process is still running, the flag is still set and the handle has received
  nothing more; and \<^verbatim>\<open>Commit\<close> and \<^verbatim>\<open>Begin\<close> then fail with \<^verbatim>\<open>ErrTxRollbacked\<close> and leave the
  entity as it was. (\<^verbatim>\<open>AutoRollback\<close> also returns no error when it only pops, on a
  committed entity; that return sets no flag.)
\<close>

theorem rollback_is_sticky:
  assumes "Rollback drv tx0 = (None, tx1)
     \<or> (AutoRollback strict drv tx0 = Return None tx1 \<and> sqlxTx tx1 \<noteq> sqlxTx tx0)"
  shows "IsRollbacked tx1
     \<and> (\<exists>tx'. run strict drv cs tx1 = Running tx' \<and> IsRollbacked tx'
           \<and> sqlxTx tx' = sqlxTx tx1
           \<and> Commit drv tx' = (Some ErrTxRollbacked, tx')
           \<and> Begin tx' = ((NilRef, Some ErrTxRollbacked), tx'))"
proof -
  have f: "IsRollbacked tx1"
    using assms
    by (auto simp: Rollback_def AutoRollback_def sqlx_Rollback_def Let_def
        split: if_splits option.splits)
  from run_sticky [OF f, of strict drv cs] obtain tx'
    where r: "run strict drv cs tx1 = Running tx'" "IsRollbacked tx'" "sqlxTx tx' = sqlxTx tx1"
    by blast
  from r(2) have "Commit drv tx' = (Some ErrTxRollbacked, tx')"
    "Begin tx' = ((NilRef, Some ErrTxRollbacked), tx')"
    by (simp_all add: Commit_def Begin_def)
  with f r show ?thesis by blast
qed

text \<open>
  The theorem after a nested \<^verbatim>\<open>Rollback\<close>: the state saved by \<^verbatim>\<open>Begin\<close> is on the stack, and
  the later calls change nothing but that.
\<close>

theorem rollback_is_sticky_witness:
  "Rollback always_ok
       \<lparr>sqlxTx = [], IsRollbacked = False, state = txPending, stateStack = [txPending]\<rparr> =
     (None,
      \<lparr>sqlxTx = [(DrvRollback, None)], IsRollbacked = True, state = txRollbacked,
       stateStack = [txPending]\<rparr>)
   \<and> run False always_ok [CallCommit, CallBegin, CallRollback]
       \<lparr>sqlxTx = [(DrvRollback, None)], IsRollbacked = True, state = txRollbacked,
        stateStack = [txPending]\<rparr> =
     Running
       \<lparr>sqlxTx = [(DrvRollback, None)], IsRollbacked = True, state = txRollbacked,
        stateStack = [txPending]\<rparr>
   \<and> Commit always_ok
       \<lparr>sqlxTx = [(DrvRollback, None)], IsRollbacked = True, state = txRollbacked,
        stateStack = [txPending]\<rparr> =
     (Some ErrTxRollbacked,
      \<lparr>sqlxTx = [(DrvRollback, None)], IsRollbacked = True, state = txRollbacked,
       stateStack = [txPending]\<rparr>)"
proof -
  have h: "Rollback always_ok
       \<lparr>sqlxTx = [], IsRollbacked = False, state = txPending, stateStack = [txPending]\<rparr> =
     (None,
      \<lparr>sqlxTx = [(DrvRollback, None)], IsRollbacked = True, state = txRollbacked,
       stateStack = [txPending]\<rparr>)"
    by (simp add: Rollback_def sqlx_Rollback_def always_ok_def)
  from rollback_is_sticky [OF disjI1, OF h, of False "[CallCommit, CallBegin, CallRollback]"] h
  show ?thesis
    by (simp add: tx_defs always_ok_def)
qed

text \<open>
  The claim as stated fails for \<^verbatim>\<open>AutoRollback\<close>: on a committed root it returns no error,
  sets no flag, and a later \<^verbatim>\<open>Begin\<close> succeeds.
\<close>

theorem AutoRollback_success_without_flag:
  "AutoRollback False always_ok
       \<lparr>sqlxTx = [(DrvCommit, None)], IsRollbacked = False, state = txCommitted,
        stateStack = []\<rparr> =
     Return None
       \<lparr>sqlxTx = [(DrvCommit, None)], IsRollbacked = False, state = txCommitted,
        stateStack = []\<rparr>
   \<and> fst (Begin
       \<lparr>sqlxTx = [(DrvCommit, None)], IsRollbacked = False, state = txCommitted,
        stateStack = []\<rparr>) = (Receiver, None)"
  by (simp add: tx_defs always_ok_def)

subsection \<open>C5: Begin and the nesting depth\<close>

text \<open>
  Claim C5. On an entity whose sticky flag is unset, \<^verbatim>\<open>Begin\<close> appends the current state to
  the stack, sets the state to \<^verbatim>\<open>txPending\<close>, changes nothing else (the handle is the same)
  and returns its receiver. So \<open>k\<close> calls of \<^verbatim>\<open>Begin\<close> on a new root all succeed and leave a
  stack of length \<open>k\<close>; and after \<open>k\<close> further calls, each \<^verbatim>\<open>AutoCommit\<close> or \<^verbatim>\<open>AutoRollback\<close>,
  the stack is empty again. The auto calls all return unless strict mode ends the process
  on a driver error.
\<close>

theorem Begin_nesting:
  "(\<not> IsRollbacked tx \<longrightarrow>
      Begin tx =
        ((Receiver, None), tx\<lparr>stateStack := stateStack tx @ [state tx], state := txPending\<rparr>))
   \<and> (\<exists>tk. run strict drv (replicate k CallBegin) (root strict) = Running tk
          \<and> length (stateStack tk) = k \<and> sqlxTx tk = [])
   \<and> (length autos = k \<and> set autos \<subseteq> {CallAutoCommit, CallAutoRollback} \<longrightarrow>
        (\<forall>tx'. run strict drv (replicate k CallBegin @ autos) (root strict) = Running tx'
            \<longrightarrow> stateStack tx' = [])
        \<and> (\<not> strict \<longrightarrow>
             (\<exists>tx'. run strict drv (replicate k CallBegin @ autos) (root strict) = Running tx')))"
proof (intro conjI impI allI)
  assume "\<not> IsRollbacked tx"
  then show "Begin tx =
    ((Receiver, None), tx\<lparr>stateStack := stateStack tx @ [state tx], state := txPending\<rparr>)"
    by (simp add: Begin_def pushState_def)
next
  have "\<not> IsRollbacked (root strict)" by simp
  from run_Begins [OF this, of strict drv k]
  show "\<exists>tk. run strict drv (replicate k CallBegin) (root strict) = Running tk
          \<and> length (stateStack tk) = k \<and> sqlxTx tk = []"
    by auto
next
  fix tx'
  assume a: "length autos = k \<and> set autos \<subseteq> {CallAutoCommit, CallAutoRollback}"
    and r: "run strict drv (replicate k CallBegin @ autos) (root strict) = Running tx'"
  have "\<not> IsRollbacked (root strict)" by simp
  from run_Begins [OF this, of strict drv k] obtain tk
    where tk: "run strict drv (replicate k CallBegin) (root strict) = Running tk"
      "length (stateStack tk) = k" by auto
  from r tk(1) have "run strict drv autos tk = Running tx'" by (simp add: run_append)
  from run_autos_pop [OF _ this] a tk(2) show "stateStack tx' = []" by simp
next
  assume "\<not> strict"
  with run_lenient_returns [of drv "replicate k CallBegin @ autos" "root strict"]
  show "\<exists>tx'. run strict drv (replicate k CallBegin @ autos) (root strict) = Running tx'"
    by simp
qed

text \<open>
  The theorem at depth two, closed by one \<^verbatim>\<open>AutoCommit\<close> and one \<^verbatim>\<open>AutoRollback\<close>, with a
  driver that refuses every call.
\<close>

theorem Begin_nesting_witness:
  "Begin (root False) =
     ((Receiver, None),
      \<lparr>sqlxTx = [], IsRollbacked = False, state = txPending, stateStack = [txPending]\<rparr>)
   \<and> length (stateStack (process_tx (run False always_fails (replicate 2 CallBegin)
        (root False)))) = 2
   \<and> stateStack (process_tx (run False always_fails
        (replicate 2 CallBegin @ [CallAutoCommit, CallAutoRollback]) (root False))) = []"
proof -
  have h: "length [CallAutoCommit, CallAutoRollback] = 2
     \<and> set [CallAutoCommit, CallAutoRollback] \<subseteq> {CallAutoCommit, CallAutoRollback}"
    by simp
  note t = Begin_nesting [of "root False" False always_fails 2
      "[CallAutoCommit, CallAutoRollback]"]
  from t h obtain tx' where r: "run False always_fails
      (replicate 2 CallBegin @ [CallAutoCommit, CallAutoRollback]) (root False) = Running tx'"
    by blast
  with t h have "stateStack tx' = []" by blast
  moreover from t obtain tk
    where "run False always_fails (replicate 2 CallBegin) (root False) = Running tk"
      "length (stateStack tk) = 2" by blast
  ultimately show ?thesis using r t by simp
qed

subsection \<open>C6: a root Commit the driver refuses\<close>

text \<open>
  Claim C6. When \<^verbatim>\<open>Commit\<close> is called at the root scope (empty stack, sticky flag unset,
  state neither \<^verbatim>\<open>txCommitted\<close> nor \<^verbatim>\<open>txRollbacked\<close>) and the underlying commit fails, it
  sets the state to \<^verbatim>\<open>txErred\<close>, returns the driver's error and changes nothing else, so
  the stack is as it was. And whenever \<^verbatim>\<open>Commit\<close> turns a state into \<^verbatim>\<open>txCommitted\<close>, it
  returns no error and either the scope is nested or the underlying commit succeeded.
\<close>

theorem Commit_root_driver_failure:
  "(stateStack tx = [] \<and> \<not> IsRollbacked tx \<and> state tx \<noteq> txCommitted
      \<and> state tx \<noteq> txRollbacked \<and> drv (sqlxTx tx) DrvCommit = Some msg \<longrightarrow>
      Commit drv tx =
        (Some (Underlying msg),
         tx\<lparr>sqlxTx := sqlxTx tx @ [(DrvCommit, Some msg)], state := txErred\<rparr>)
      \<and> stateStack (snd (Commit drv tx)) = stateStack tx)
   \<and> (state (snd (Commit drv tx)) = txCommitted \<and> state tx \<noteq> txCommitted \<longrightarrow>
        fst (Commit drv tx) = None
        \<and> (stateStack tx \<noteq> [] \<or> drv (sqlxTx tx) DrvCommit = None))"
proof (rule conjI)
  show "stateStack tx = [] \<and> \<not> IsRollbacked tx \<and> state tx \<noteq> txCommitted
      \<and> state tx \<noteq> txRollbacked \<and> drv (sqlxTx tx) DrvCommit = Some msg \<longrightarrow>
      Commit drv tx =
        (Some (Underlying msg),
         tx\<lparr>sqlxTx := sqlxTx tx @ [(DrvCommit, Some msg)], state := txErred\<rparr>)
      \<and> stateStack (snd (Commit drv tx)) = stateStack tx"
  proof (rule impI)
    assume a: "stateStack tx = [] \<and> \<not> IsRollbacked tx \<and> state tx \<noteq> txCommitted
      \<and> state tx \<noteq> txRollbacked \<and> drv (sqlxTx tx) DrvCommit = Some msg"
    then have "sqlx_Commit drv tx =
        (Some msg, tx\<lparr>sqlxTx := sqlxTx tx @ [(DrvCommit, Some msg)]\<rparr>)"
      by (simp add: sqlx_Commit_def Let_def)
    with a have "Commit drv tx =
        (Some (Underlying msg),
         tx\<lparr>sqlxTx := sqlxTx tx @ [(DrvCommit, Some msg)], state := txErred\<rparr>)"
      by (simp add: Commit_def)
    then show "Commit drv tx =
        (Some (Underlying msg),
         tx\<lparr>sqlxTx := sqlxTx tx @ [(DrvCommit, Some msg)], state := txErred\<rparr>)
      \<and> stateStack (snd (Commit drv tx)) = stateStack tx"
      by simp
  qed
next
  show "state (snd (Commit drv tx)) = txCommitted \<and> state tx \<noteq> txCommitted \<longrightarrow>
        fst (Commit drv tx) = None
        \<and> (stateStack tx \<noteq> [] \<or> drv (sqlxTx tx) DrvCommit = None)"
  proof (rule impI)
    assume b: "state (snd (Commit drv tx)) = txCommitted \<and> state tx \<noteq> txCommitted"
    then have unguarded: "\<not> IsRollbacked tx" "state tx \<noteq> txRollbacked"
      by (auto simp: Commit_def split: if_splits)
    show "fst (Commit drv tx) = None
        \<and> (stateStack tx \<noteq> [] \<or> drv (sqlxTx tx) DrvCommit = None)"
    proof (cases "stateStack tx = []")
      case False
      with b unguarded show ?thesis by (simp add: Commit_def)
    next
      case True
      show ?thesis
      proof (cases "drv (sqlxTx tx) DrvCommit")
        case None
        with True b unguarded show ?thesis by (simp add: Commit_def sqlx_Commit_def Let_def)
      next
        case (Some e)
        with True b unguarded have "state (snd (Commit drv tx)) = txErred"
          by (simp add: Commit_def sqlx_Commit_def Let_def)
        with b show ?thesis by simp
      qed
    qed
  qed
qed

text \<open>
  The theorem at a new root, once with the driver that refuses the commit and once with
  the driver that accepts it.
\<close>

theorem Commit_root_driver_failure_witness:
  "Commit always_fails (root False) =
     (Some (Underlying ''driver: bad connection''),
      \<lparr>sqlxTx = [(DrvCommit, Some ''driver: bad connection'')], IsRollbacked = False,
       state = txErred, stateStack = []\<rparr>)
   \<and> state (snd (Commit always_ok (root False))) = txCommitted
   \<and> fst (Commit always_ok (root False)) = None
   \<and> always_ok (sqlxTx (root False)) DrvCommit = None"
  using Commit_root_driver_failure [of "root False" always_fails "''driver: bad connection''"]
    Commit_root_driver_failure [of "root False" always_ok]
  by (simp add: always_fails_def always_ok_def Commit_def sqlx_Commit_def)

subsection \<open>C7: the leak watchdog\<close>

text \<open>
  Claim C7. \<^verbatim>\<open>WrapSqlxTx\<close> arms a timer exactly when strict mode is on; the timer is set to
  one minute and runs the leak check. The check, on the entity as it is when the timer
  fires, panics exactly when the state is \<^verbatim>\<open>txPending\<close> and the sticky flag is unset, and
  does nothing otherwise. In lenient mode no timer is armed, so no check runs.
\<close>

theorem leak_watchdog:
  "(snd (WrapSqlxTx strict h) \<noteq> []) = strict
   \<and> snd (WrapSqlxTx strict h) =
       (if strict then [AfterFunc (60 * 1000000000) leak_check] else [])
   \<and> (leak_check tx = Some ''A database transaction was not closed!'')
       = (state tx = txPending \<and> \<not> IsRollbacked tx)
   \<and> (leak_check tx = None) = (\<not> (state tx = txPending \<and> \<not> IsRollbacked tx))"
proof -
  have armed: "snd (WrapSqlxTx strict h) =
      (if strict then [AfterFunc (60 * 1000000000) leak_check] else [])"
    by (simp add: WrapSqlxTx_def time_Minute_def)
  then have iff: "(snd (WrapSqlxTx strict h) \<noteq> []) = strict" by simp
  have fires: "(leak_check tx = Some ''A database transaction was not closed!'')
      = (state tx = txPending \<and> \<not> IsRollbacked tx)"
    by (simp add: leak_check_def)
  have quiet: "(leak_check tx = None) = (\<not> (state tx = txPending \<and> \<not> IsRollbacked tx))"
    by (simp add: leak_check_def)
  from iff armed fires quiet show ?thesis by blast
qed

text \<open>
  The theorem on a new root in both modes, on a root left open and on a committed one.
\<close>

theorem leak_watchdog_witness:
  "snd (WrapSqlxTx True []) = [AfterFunc 60000000000 leak_check]
   \<and> snd (WrapSqlxTx False []) = []
   \<and> leak_check (fst (WrapSqlxTx True [])) = Some ''A database transaction was not closed!''
   \<and> leak_check (snd (Commit always_ok (fst (WrapSqlxTx True [])))) = None"
  using leak_watchdog [of True "[]" "fst (WrapSqlxTx True [])"]
    leak_watchdog [of False "[]" "snd (Commit always_ok (fst (WrapSqlxTx True [])))"]
  by (simp add: WrapSqlxTx_def Commit_def sqlx_Commit_def always_ok_def)

subsection \<open>C9: the state txRollbacked and the sticky flag\<close>

text \<open>
  Claim C9. Take a newly wrapped transaction and any sequence of \<^verbatim>\<open>Begin\<close>, \<^verbatim>\<open>Commit\<close>,
  \<^verbatim>\<open>Rollback\<close>, \<^verbatim>\<open>AutoCommit\<close> and \<^verbatim>\<open>AutoRollback\<close> calls, in either mode and with any driver.
  In the state the run ends in (also when a call ended the process), if the state is
  \<^verbatim>\<open>txRollbacked\<close> then the sticky flag is set, and no entry of the state stack is
  \<^verbatim>\<open>txRollbacked\<close>.
\<close>

theorem rolled_back_state_has_flag:
  "(state (process_tx (run strict drv cs (fst (WrapSqlxTx strict' h)))) = txRollbacked
      \<longrightarrow> IsRollbacked (process_tx (run strict drv cs (fst (WrapSqlxTx strict' h)))))
   \<and> txRollbacked \<notin> set (stateStack (process_tx (run strict drv cs (fst (WrapSqlxTx strict' h)))))"
proof -
  have "rolled_back_ok (fst (WrapSqlxTx strict' h))"
    by (simp add: rolled_back_ok_def WrapSqlxTx_def)
  then have "rolled_back_ok (process_tx (run strict drv cs (fst (WrapSqlxTx strict' h))))"
    by (intro run_invariant [where P = rolled_back_ok] exec_rolled_back_ok)
  then show ?thesis by (simp add: rolled_back_ok_def)
qed

text \<open>
  The theorem on a run that ends in \<^verbatim>\<open>txRollbacked\<close> with a saved state on the stack.
\<close>

theorem rolled_back_state_has_flag_witness:
  "state (process_tx (run False always_ok [CallBegin, CallRollback] (fst (WrapSqlxTx False []))))
     = txRollbacked
   \<and> IsRollbacked (process_tx
        (run False always_ok [CallBegin, CallRollback] (fst (WrapSqlxTx False []))))
   \<and> stateStack (process_tx
        (run False always_ok [CallBegin, CallRollback] (fst (WrapSqlxTx False []))))
     = [txPending]"
  using rolled_back_state_has_flag [of False always_ok "[CallBegin, CallRollback]" False "[]"]
  by (simp add: WrapSqlxTx_def tx_defs always_ok_def)

subsection \<open>C10: popping an empty stack\<close>

text \<open>
  Claim C10. \<^verbatim>\<open>popState\<close> on an empty stack changes nothing. So \<^verbatim>\<open>AutoCommit\<close> and
  \<^verbatim>\<open>AutoRollback\<close> on a root scope leave the stack empty and the state as they set it:
  \<^verbatim>\<open>txCommitted\<close> or \<^verbatim>\<open>txRollbacked\<close> when the underlying call succeeded, \<^verbatim>\<open>txErred\<close> when it
  failed, and the state they found when they made no underlying call.
\<close>

theorem pop_empty_stack:
  assumes empty: "stateStack tx = []"
  shows "popState tx = tx
     \<and> stateStack (outcome_tx (AutoCommit strict drv tx)) = []
     \<and> state (outcome_tx (AutoCommit strict drv tx)) =
         (if state tx = txRollbacked \<or> IsRollbacked tx then state tx
          else if drv (sqlxTx tx) DrvCommit = None then txCommitted else txErred)
     \<and> stateStack (outcome_tx (AutoRollback strict drv tx)) = []
     \<and> state (outcome_tx (AutoRollback strict drv tx)) =
         (if IsRollbacked tx \<or> state tx = txCommitted then state tx
          else if drv (sqlxTx tx) DrvRollback = None then txRollbacked else txErred)"
proof -
  have pop: "popState t = t" if "stateStack t = []" for t
    using that by (simp add: popState_def)
  have ac_stack: "stateStack (outcome_tx (AutoCommit strict drv tx)) = []"
    using empty
    by (cases "drv (sqlxTx tx) DrvCommit") (simp_all add: AutoCommit_def sqlx_Commit_def Let_def)
  have ac_state: "state (outcome_tx (AutoCommit strict drv tx)) =
         (if state tx = txRollbacked \<or> IsRollbacked tx then state tx
          else if drv (sqlxTx tx) DrvCommit = None then txCommitted else txErred)"
    using empty
    by (cases "drv (sqlxTx tx) DrvCommit") (simp_all add: AutoCommit_def sqlx_Commit_def Let_def pop)
  have ar_stack: "stateStack (outcome_tx (AutoRollback strict drv tx)) = []"
    using empty
    by (cases "drv (sqlxTx tx) DrvRollback") (simp_all add: AutoRollback_def sqlx_Rollback_def Let_def)
  have ar_state: "state (outcome_tx (AutoRollback strict drv tx)) =
         (if IsRollbacked tx \<or> state tx = txCommitted then state tx
          else if drv (sqlxTx tx) DrvRollback = None then txRollbacked else txErred)"
    using empty
    by (cases "drv (sqlxTx tx) DrvRollback")
      (simp_all add: AutoRollback_def sqlx_Rollback_def Let_def pop)
  from pop [OF empty] ac_stack ac_state ar_stack ar_state show ?thesis by blast
qed

text \<open>The theorem at a new root whose driver refuses the commit and accepts the rollback.\<close>

theorem pop_empty_stack_witness:
  "stateStack (root False) = []
   \<and> AutoCommit False always_fails (root False) =
       Return (Some (Underlying ''driver: bad connection''))
         \<lparr>sqlxTx = [(DrvCommit, Some ''driver: bad connection'')], IsRollbacked = False,
          state = txErred, stateStack = []\<rparr>
   \<and> AutoRollback False always_ok (root False) =
       Return None
         \<lparr>sqlxTx = [(DrvRollback, None)], IsRollbacked = True, state = txRollbacked,
          stateStack = []\<rparr>"
proof -
  have h: "stateStack (root False) = []" by simp
  from pop_empty_stack [OF h, of False always_fails] pop_empty_stack [OF h, of False always_ok]
  show ?thesis
    by (simp add: tx_defs Let_def always_fails_def always_ok_def)
qed

end
